theory Spec2Isabelle
  imports Main "HOL-Library.AList"
begin

section \<open>Data model (store/types.ts)\<close>

text \<open>
  A \<open>StateValue\<close> is a JavaScript value that may sit in the state. Numbers are
  integers here; no statement below computes with them. An object is the list of its
  own enumerable properties in insertion order. Statements below read an object by key,
  through \<open>mappingOf\<close>, never by position; where a list names a key twice the last
  entry counts, as in an object literal.
\<close>

datatype StateValue =
    VString string
  | VNumber int
  | VBool bool
  | VNull
  | VUndefined
  | VObject "(string \<times> StateValue) list"
  | VArray "StateValue list"

type_synonym State = "(string \<times> StateValue) list"

definition mappingOf :: "(string \<times> StateValue) list \<Rightarrow> (string \<rightharpoonup> StateValue)" where
  "mappingOf ps = map_of (rev ps)"

record Action =
  type :: string
  payload :: "StateValue option"
  timestamp :: "nat option"

text \<open>The object a History-Recorder listener receives: \<open>{ type, state, action }\<close>.\<close>

record Change =
  changeType :: string
  changeState :: State
  changeAction :: "Action option"

text \<open>
  Callbacks are closures over the caller's own variables. The type \<open>'x\<close> is that
  captured environment: a callback reads its arguments and updates \<open>'x\<close>. The
  calls a store listener may make on the store itself are added in the section on
  listeners that call the store; listeners of the recorder make none.
  A JavaScript \<open>Set\<close> of closures is a list in insertion order, each closure
  paired with the number that stands for its identity.
\<close>

type_synonym 'x Listener = "State \<Rightarrow> Action option \<Rightarrow> 'x \<Rightarrow> 'x"
type_synonym 'x ChangeListener = "Change \<Rightarrow> 'x \<Rightarrow> 'x"

definition setAdd :: "nat \<times> 'f \<Rightarrow> (nat \<times> 'f) list \<Rightarrow> (nat \<times> 'f) list" where
  "setAdd l ls = (if fst l \<in> fst ` set ls then ls else ls @ [l])"

definition setDelete :: "nat \<Rightarrow> (nat \<times> 'f) list \<Rightarrow> (nat \<times> 'f) list" where
  "setDelete i ls = filter (\<lambda>l. fst l \<noteq> i) ls"

definition forEach :: "(nat \<times> 'f) list \<Rightarrow> ('f \<Rightarrow> 'x \<Rightarrow> 'x) \<Rightarrow> 'x \<Rightarrow> 'x" where
  "forEach ls call x = fold (\<lambda>l. call (snd l)) ls x"

text \<open>\<open>Array.prototype.push\<close> and \<open>shift\<close>; \<open>shift\<close> of an empty array leaves it empty.\<close>

definition push :: "'a list \<Rightarrow> 'a \<Rightarrow> 'a list" where
  "push xs x = xs @ [x]"

definition shift :: "'a list \<Rightarrow> 'a list" where
  "shift xs = (case xs of [] \<Rightarrow> [] | _ # rest \<Rightarrow> rest)"

section \<open>History Recorder (class DevTools)\<close>

record 'x DevTools =
  enabled :: bool
  name :: string
  stateHistory :: "State list"
  actionHistory :: "Action list"
  maxHistorySize :: int
  listeners :: "(nat \<times> 'x ChangeListener) list"

record DevToolsOptions =
  optName :: "string option"
  optEnabled :: "bool option"

text \<open>
  The constructor. \<open>development\<close> is the truth value of
  \<open>process.env.NODE_ENV === 'development'\<close>; an empty \<open>options.name\<close> is falsy and
  takes the default as an absent one does.
\<close>

definition newDevTools :: "bool \<Rightarrow> DevToolsOptions \<Rightarrow> 'x DevTools" where
  "newDevTools development options =
     \<lparr> enabled = (case optEnabled options of Some b \<Rightarrow> b | None \<Rightarrow> development),
       name = (case optName options of Some n \<Rightarrow> (if n = [] then ''Stately Store'' else n)
                                     | None \<Rightarrow> ''Stately Store''),
       stateHistory = [],
       actionHistory = [],
       maxHistorySize = 100,
       listeners = [] \<rparr>"

definition notifyListeners ::
  "string \<Rightarrow> State \<Rightarrow> Action option \<Rightarrow> 'x DevTools \<Rightarrow> 'x \<Rightarrow> 'x" where
  "notifyListeners ty s a d x =
     forEach (listeners d)
       (\<lambda>listener. listener \<lparr> changeType = ty, changeState = s, changeAction = a \<rparr>) x"

text \<open>\<open>record(action, state)\<close>: the recorder and the callbacks' environment, updated.\<close>

definition record_dt :: "Action \<Rightarrow> State \<Rightarrow> 'x DevTools \<times> 'x \<Rightarrow> 'x DevTools \<times> 'x" where
  "record_dt action s dx =
     (case dx of (d, x) \<Rightarrow>
        if \<not> enabled d then (d, x)
        else
          let d1 = d \<lparr> stateHistory := push (stateHistory d) s \<rparr>;
              d2 = d1 \<lparr> actionHistory := push (actionHistory d1) action \<rparr>;
              d3 = (if int (length (stateHistory d2)) > maxHistorySize d2
                    then d2 \<lparr> stateHistory := shift (stateHistory d2),
                              actionHistory := shift (actionHistory d2) \<rparr>
                    else d2)
          in (d3, notifyListeners ''STATE_CHANGED'' s (Some action) d3 x))"

text \<open>
  \<open>subscribe(listener)\<close> returns the recorder and the unsubscribe closure, itself an
  update of the recorder.
\<close>

definition subscribe_dt ::
  "nat \<times> 'x ChangeListener \<Rightarrow> 'x DevTools \<Rightarrow> 'x DevTools \<times> ('x DevTools \<Rightarrow> 'x DevTools)" where
  "subscribe_dt listener d =
     (if \<not> enabled d then (d, \<lambda>d'. d')
      else (d \<lparr> listeners := setAdd listener (listeners d) \<rparr>,
            \<lambda>d'. d' \<lparr> listeners := setDelete (fst listener) (listeners d') \<rparr>))"

definition getStateHistory :: "'x DevTools \<Rightarrow> State list" where
  "getStateHistory d = stateHistory d"

definition getActionHistory :: "'x DevTools \<Rightarrow> Action list" where
  "getActionHistory d = actionHistory d"

text \<open>\<open>null\<close> is \<open>None\<close>. The index is an integer.\<close>

definition getStateAt :: "int \<Rightarrow> 'x DevTools \<Rightarrow> State option" where
  "getStateAt index d =
     (if index < 0 \<or> index \<ge> int (length (stateHistory d)) then None
      else Some (stateHistory d ! nat (int (length (stateHistory d)) - 1 - index)))"

definition getActionAt :: "int \<Rightarrow> 'x DevTools \<Rightarrow> Action option" where
  "getActionAt index d =
     (if index < 0 \<or> index \<ge> int (length (actionHistory d)) then None
      else Some (actionHistory d ! nat (int (length (actionHistory d)) - 1 - index)))"

definition clearHistory :: "'x DevTools \<Rightarrow> 'x DevTools" where
  "clearHistory d = d \<lparr> stateHistory := [], actionHistory := [] \<rparr>"

text \<open>
  The loop of \<open>setMaxHistorySize\<close>. Its test reads the state history only, and a
  \<open>shift\<close> of an empty array changes nothing, so below a negative bound the loop does
  not end: the result is \<open>None\<close>.
\<close>

partial_function (option) evict ::
  "int \<Rightarrow> State list \<Rightarrow> Action list \<Rightarrow> (State list \<times> Action list) option" where
  "evict n sh ah =
     (if int (length sh) > n then evict n (shift sh) (shift ah) else Some (sh, ah))"

definition setMaxHistorySize :: "int \<Rightarrow> 'x DevTools \<Rightarrow> 'x DevTools option" where
  "setMaxHistorySize n d =
     (case evict n (stateHistory d) (actionHistory d) of
        None \<Rightarrow> None
      | Some (sh, ah) \<Rightarrow>
          Some (d \<lparr> maxHistorySize := n, stateHistory := sh, actionHistory := ah \<rparr>))"

definition setEnabled :: "bool \<Rightarrow> 'x DevTools \<Rightarrow> 'x DevTools" where
  "setEnabled b d = d \<lparr> enabled := b \<rparr>"

section \<open>Store (store/createStore.ts)\<close>

text \<open>A call returns or throws; a thrown exception is \<open>Inl\<close>.\<close>

datatype error = Thrown string

text \<open>
  The argument of \<open>setState\<close>: \<open>Callable\<close> is a value whose \<open>typeof\<close> is
  \<open>'function'\<close>, \<open>Value\<close> is any other value.
\<close>

datatype Updater = Callable "State \<Rightarrow> StateValue" | Value StateValue

text \<open>
  Object spread copies the own enumerable properties of its operand: those of an object,
  the indices of an array or of a string, none for the other primitives.
\<close>

fun indexKey :: "nat \<Rightarrow> string" where
  "indexKey n =
     (if n < 10 then [char_of (48 + n)] else indexKey (n div 10) @ [char_of (48 + n mod 10)])"

fun ownProps :: "StateValue \<Rightarrow> (string \<times> StateValue) list" where
  "ownProps (VObject ps) = ps"
| "ownProps (VArray xs) = zip (map indexKey [0..<length xs]) xs"
| "ownProps (VString s) = zip (map indexKey [0..<length s]) (map (\<lambda>c. VString [c]) s)"
| "ownProps _ = []"

definition assign :: "State \<Rightarrow> (string \<times> StateValue) list \<Rightarrow> State" where
  "assign target props = fold (\<lambda>kv acc. AList.update (fst kv) (snd kv) acc) props target"

text \<open>\<open>{ ...a, ...b }\<close>\<close>

definition spread :: "StateValue \<Rightarrow> StateValue \<Rightarrow> State" where
  "spread a b = assign (assign [] (ownProps a)) (ownProps b)"

record 'x World =
  state :: State
  listeners :: "(nat \<times> 'x Listener) list"
  devTools :: "'x DevTools"
  now :: nat
  env :: 'x

type_synonym 'x Dispatch = "Action \<Rightarrow> 'x World \<Rightarrow> error + 'x World"

record 'x Store =
  getState :: "'x World \<Rightarrow> State"
  setState :: "Updater \<Rightarrow> 'x World \<Rightarrow> error + 'x World"
  subscribe :: "nat \<times> 'x Listener \<Rightarrow> 'x World \<Rightarrow> 'x World \<times> ('x World \<Rightarrow> 'x World)"
  dispatch :: "'x Dispatch"

type_synonym 'x Middleware = "'x Store \<Rightarrow> 'x Dispatch \<Rightarrow> 'x Dispatch"

record 'x StoreOptions =
  initialState :: "State option"
  devToolsOption :: "bool option"
  middleware :: "'x Middleware list option"

text \<open>
  The variables the closures of \<open>createStore\<close> share (\<open>state\<close>, \<open>listeners\<close>,
  \<open>devTools\<close>) are fields of the world, beside the clock \<open>now\<close> that \<open>Date.now()\<close>
  reads and the callbacks' environment.
\<close>

definition store_getState :: "'x World \<Rightarrow> State" where
  "store_getState w = state w"

definition notify :: "Action \<Rightarrow> 'x World \<Rightarrow> 'x World" where
  "notify action w =
     w \<lparr> env := forEach (listeners w) (\<lambda>listener. listener (state w) (Some action)) (env w) \<rparr>"

definition recordIn :: "Action \<Rightarrow> 'x World \<Rightarrow> 'x World" where
  "recordIn action w =
     (case record_dt action (state w) (devTools w, env w) of
        (d, x) \<Rightarrow> w \<lparr> devTools := d, env := x \<rparr>)"

text \<open>\<open>typeof updater === 'function' ? updater(state) : updater\<close>\<close>

definition resolve :: "Updater \<Rightarrow> State \<Rightarrow> StateValue" where
  "resolve updater s = (case updater of Callable f \<Rightarrow> f s | Value v \<Rightarrow> v)"

definition store_setState :: "Updater \<Rightarrow> 'x World \<Rightarrow> error + 'x World" where
  "store_setState updater w =
     (let nextState = resolve updater (state w);
          w1 = w \<lparr> state := spread (VObject (state w)) nextState \<rparr>;
          action = \<lparr> type = ''SET_STATE'', payload = Some nextState,
                     timestamp = Some (now w1) \<rparr>
      in Inr (notify action (recordIn action w1)))"

definition store_subscribe ::
  "nat \<times> 'x Listener \<Rightarrow> 'x World \<Rightarrow> 'x World \<times> ('x World \<Rightarrow> 'x World)" where
  "store_subscribe listener w =
     (w \<lparr> listeners := setAdd listener (listeners w) \<rparr>,
      \<lambda>w'. w' \<lparr> listeners := setDelete (fst listener) (listeners w') \<rparr>)"

text \<open>
  \<open>dispatch\<close> assigns to \<open>action.timestamp\<close> of the object it is given: the stamped
  action is the one recorded and passed to the listeners. Each dispatched action is an
  object of its own.
\<close>

definition store_dispatch :: "'x Dispatch" where
  "store_dispatch action w =
     (let action1 = action \<lparr> timestamp := Some (now w) \<rparr>
      in Inr (notify action1 (recordIn action1 w)))"

section \<open>Middleware Pipeline (middleware/index.ts)\<close>

text \<open>
  \<open>Array.prototype.reduceRight(callback, initialValue)\<close> visits the array from its last
  element to its first, calling \<open>callback(accumulator, element)\<close>.
\<close>

definition reduceRight :: "('b \<Rightarrow> 'a \<Rightarrow> 'b) \<Rightarrow> 'a list \<Rightarrow> 'b \<Rightarrow> 'b" where
  "reduceRight callback xs initialValue = fold (\<lambda>x acc. callback acc x) (rev xs) initialValue"

definition composeChain :: "'x Middleware list \<Rightarrow> 'x Store \<Rightarrow> 'x Dispatch \<Rightarrow> 'x Dispatch" where
  "composeChain middlewares store dispatch0 =
     reduceRight
       (\<lambda>next middleware. (\<lambda>action. let nextHandler = middleware store next in nextHandler action))
       middlewares dispatch0"

definition applyMiddleware :: "'x Middleware list \<Rightarrow> 'x Store \<Rightarrow> 'x Store" where
  "applyMiddleware middlewares store =
     store \<lparr> dispatch := composeChain middlewares store (dispatch store) \<rparr>"

text \<open>The object literal \<open>store\<close> of \<open>createStore\<close>.\<close>

definition baseStore :: "'x Store" where
  "baseStore = \<lparr> getState = store_getState, setState = store_setState,
                 subscribe = store_subscribe, dispatch = store_dispatch \<rparr>"

text \<open>
  \<open>createStore(options)\<close>, with the environment it starts in: \<open>development\<close> as for
  the recorder, the clock \<open>t\<close> and the callbacks' environment \<open>x\<close>.
\<close>

definition createStore ::
  "bool \<Rightarrow> 'x StoreOptions \<Rightarrow> nat \<Rightarrow> 'x \<Rightarrow> 'x Store \<times> 'x World" where
  "createStore development options t x =
     (let w = \<lparr> state = (case initialState options of Some s \<Rightarrow> s | None \<Rightarrow> []),
                listeners = [],
                devTools = newDevTools development
                             \<lparr> optName = None, optEnabled = devToolsOption options \<rparr>,
                now = t,
                env = x \<rparr>;
          store = baseStore
      in case middleware options of
           None \<Rightarrow> (store, w)
         | Some ms \<Rightarrow> (if ms \<noteq> [] then (applyMiddleware ms store, w) else (store, w)))"

section \<open>Listeners that call the store\<close>

text \<open>
  A listener is a closure, and a closure may hold the store and call it while it is
  notified: \<open>setState\<close> and \<open>dispatch\<close> call whatever was subscribed. Such a
  listener is its callback on its own variables followed by the calls it makes on the
  store. The calls are given for the listener's identity by a function of the world that
  returns or throws: \<open>calls i s a\<close> is what listener \<open>i\<close>, called with state \<open>s\<close>
  and action \<open>a\<close>, does through the store. \<open>forEach\<close> passes each listener the
  variable \<open>state\<close> as it is when that listener is called, and a throw ends the
  notification and the call. The listeners visited are those subscribed when the
  notification starts: no listener subscribes or unsubscribes during one. With listeners
  that make no calls (\<open>quiet\<close>) these are the definitions of the Store section.
\<close>

type_synonym 'x StoreCalls = "nat \<Rightarrow> State \<Rightarrow> Action option \<Rightarrow> 'x World \<Rightarrow> error + 'x World"

definition invoke ::
  "'x StoreCalls \<Rightarrow> nat \<times> 'x Listener \<Rightarrow> State \<Rightarrow> Action option \<Rightarrow> 'x World \<Rightarrow> error + 'x World" where
  "invoke calls listener s a w =
     calls (fst listener) s a (w \<lparr> env := snd listener s a (env w) \<rparr>)"

fun notifyEach ::
  "'x StoreCalls \<Rightarrow> (nat \<times> 'x Listener) list \<Rightarrow> Action \<Rightarrow> 'x World \<Rightarrow> error + 'x World" where
  "notifyEach calls [] action w = Inr w"
| "notifyEach calls (listener # rest) action w =
     (case invoke calls listener (state w) (Some action) w of
        Inl e \<Rightarrow> Inl e
      | Inr w' \<Rightarrow> notifyEach calls rest action w')"

definition notify_calling :: "'x StoreCalls \<Rightarrow> Action \<Rightarrow> 'x World \<Rightarrow> error + 'x World" where
  "notify_calling calls action w = notifyEach calls (World.listeners w) action w"

definition setState_calling :: "'x StoreCalls \<Rightarrow> Updater \<Rightarrow> 'x World \<Rightarrow> error + 'x World" where
  "setState_calling calls updater w =
     (let nextState = resolve updater (state w);
          w1 = w \<lparr> state := spread (VObject (state w)) nextState \<rparr>;
          action = \<lparr> type = ''SET_STATE'', payload = Some nextState,
                     timestamp = Some (now w1) \<rparr>
      in notify_calling calls action (recordIn action w1))"

definition dispatch_calling :: "'x StoreCalls \<Rightarrow> 'x Dispatch" where
  "dispatch_calling calls action w =
     (let action1 = action \<lparr> timestamp := Some (now w) \<rparr>
      in notify_calling calls action1 (recordIn action1 w))"

definition baseStore_calling :: "'x StoreCalls \<Rightarrow> 'x Store" where
  "baseStore_calling calls =
     \<lparr> getState = store_getState, setState = setState_calling calls,
       subscribe = store_subscribe, dispatch = dispatch_calling calls \<rparr>"

definition createStore_calling ::
  "'x StoreCalls \<Rightarrow> bool \<Rightarrow> 'x StoreOptions \<Rightarrow> nat \<Rightarrow> 'x \<Rightarrow> 'x Store \<times> 'x World" where
  "createStore_calling calls development options t x =
     (let w = \<lparr> state = (case initialState options of Some s \<Rightarrow> s | None \<Rightarrow> []),
                listeners = [],
                devTools = newDevTools development
                             \<lparr> optName = None, optEnabled = devToolsOption options \<rparr>,
                now = t,
                env = x \<rparr>;
          store = baseStore_calling calls
      in case middleware options of
           None \<Rightarrow> (store, w)
         | Some ms \<Rightarrow> (if ms \<noteq> [] then (applyMiddleware ms store, w) else (store, w)))"

text \<open>Listeners that make no calls on the store.\<close>

definition quiet :: "'x StoreCalls" where
  "quiet i s a w = Inr w"

section \<open>Operation sequences and the specification's notions\<close>

text \<open>The operations of the History Recorder that change it, and a run of them in order.\<close>

datatype 'x RecorderOp =
    Record Action State
  | ClearHistory
  | SetMaxHistorySize int
  | SetEnabled bool
  | Subscribe "nat \<times> 'x ChangeListener"

fun applyOp :: "'x RecorderOp \<Rightarrow> 'x DevTools \<times> 'x \<Rightarrow> ('x DevTools \<times> 'x) option" where
  "applyOp (Record a s) dx = Some (record_dt a s dx)"
| "applyOp ClearHistory dx = Some (clearHistory (fst dx), snd dx)"
| "applyOp (SetMaxHistorySize n) dx =
     (case setMaxHistorySize n (fst dx) of None \<Rightarrow> None | Some d \<Rightarrow> Some (d, snd dx))"
| "applyOp (SetEnabled b) dx = Some (setEnabled b (fst dx), snd dx)"
| "applyOp (Subscribe l) dx = Some (fst (subscribe_dt l (fst dx)), snd dx)"

fun runOps :: "'x RecorderOp list \<Rightarrow> 'x DevTools \<times> 'x \<Rightarrow> ('x DevTools \<times> 'x) option" where
  "runOps [] dx = Some dx"
| "runOps (op # ops) dx = (case applyOp op dx of None \<Rightarrow> None | Some dx' \<Rightarrow> runOps ops dx')"

fun nonNegativeBound :: "'x RecorderOp \<Rightarrow> bool" where
  "nonNegativeBound (SetMaxHistorySize n) = (0 \<le> n)"
| "nonNegativeBound _ = True"

definition historyInvariant :: "'x DevTools \<Rightarrow> bool" where
  "historyInvariant d \<longleftrightarrow>
     length (stateHistory d) = length (actionHistory d) \<and>
     int (length (stateHistory d)) \<le> maxHistorySize d"

text \<open>The \<open>n\<close> newest entries of a history: what is left when the oldest are evicted.\<close>

definition newest :: "nat \<Rightarrow> 'a list \<Rightarrow> 'a list" where
  "newest n xs = drop (length xs - n) xs"

text \<open>
  Shallow merge as the specification words it: overlapping keys take the second
  mapping's value wholesale, the other keys keep the first mapping's value.
\<close>

definition shallowMerge ::
  "(string \<rightharpoonup> StateValue) \<Rightarrow> (string \<rightharpoonup> StateValue) \<Rightarrow> (string \<rightharpoonup> StateValue)" where
  "shallowMerge a b = (\<lambda>k. case b k of Some v \<Rightarrow> Some v | None \<Rightarrow> a k)"

text \<open>A sequence of \<open>setState\<close> calls, each with the time \<open>Date.now()\<close> reads during it.\<close>

fun setStates :: "(nat \<times> Updater) list \<Rightarrow> 'x World \<Rightarrow> error + 'x World" where
  "setStates [] w = Inr w"
| "setStates (c # cs) w =
     (case store_setState (snd c) (w \<lparr> now := fst c \<rparr>) of
        Inl e \<Rightarrow> Inl e
      | Inr w' \<Rightarrow> setStates cs w')"

text \<open>
  The partial update of each call of such a sequence: the updater itself, or what the
  updater function returns for the state it is called with.
\<close>

fun partials :: "(nat \<times> Updater) list \<Rightarrow> 'x World \<Rightarrow> StateValue list" where
  "partials [] w = []"
| "partials (c # cs) w =
     resolve (snd c) (state w) #
     (case store_setState (snd c) (w \<lparr> now := fst c \<rparr>) of
        Inl e \<Rightarrow> []
      | Inr w' \<Rightarrow> partials cs w')"

text \<open>
  Callbacks that keep a call log, as a test does with an array it pushes to: a handler
  that logs its tag with the action it is given and forwards the action, a handler that
  swallows every action, and a store listener that logs its tag with the action it is
  called with.
\<close>

type_synonym CallLog = "(string \<times> Action option) list"

definition tracer :: "string \<Rightarrow> CallLog Middleware" where
  "tracer tag store next action w = next action (w \<lparr> env := env w @ [(tag, Some action)] \<rparr>)"

definition swallow :: "'x Middleware" where
  "swallow store next action w = Inr w"

definition logListener :: "string \<Rightarrow> CallLog Listener" where
  "logListener tag s a x = x @ [(tag, a)]"

section \<open>Concrete inputs\<close>

definition act :: "string \<Rightarrow> Action" where
  "act t = \<lparr> type = t, payload = None, timestamp = None \<rparr>"

definition counter :: "int \<Rightarrow> State" where
  "counter n = [(''count'', VNumber n)]"

definition enabledRecorder :: "unit DevTools" where
  "enabledRecorder = newDevTools False \<lparr> optName = None, optEnabled = Some True \<rparr>"

definition disabledRecorder :: "unit DevTools" where
  "disabledRecorder = newDevTools True \<lparr> optName = None, optEnabled = Some False \<rparr>"

definition threeRecords :: "unit RecorderOp list" where
  "threeRecords =
     [SetMaxHistorySize 2,
      Record (act ''A1'') (counter 1),
      Record (act ''A2'') (counter 2),
      Record (act ''A3'') (counter 3)]"

definition plainOptions :: "CallLog StoreOptions" where
  "plainOptions =
     \<lparr> initialState = Some (counter 0), devToolsOption = Some True, middleware = None \<rparr>"

text \<open>A store without middleware at clock 9, with one logging listener subscribed.\<close>

definition watchedWorld :: "CallLog World" where
  "watchedWorld =
     fst (subscribe (fst (createStore False plainOptions 9 [])) (1, logListener ''L'')
            (snd (createStore False plainOptions 9 [])))"

definition stampedAction :: Action where
  "stampedAction = \<lparr> type = ''X'', payload = None, timestamp = Some 5 \<rparr>"

definition nested :: State where
  "nested = [(''count'', VNumber 0),
             (''user'', VObject [(''name'', VString ''a''), (''age'', VNumber 1)])]"

text \<open>\<open>s => ({ count: s.count + 1 })\<close>, on states whose \<open>count\<close> is a number.\<close>

definition increment :: "State \<Rightarrow> StateValue" where
  "increment s =
     VObject [(''count'', case mappingOf s ''count'' of
                            Some (VNumber n) \<Rightarrow> VNumber (n + 1)
                          | _ \<Rightarrow> VUndefined)]"

definition threeCalls :: "(nat \<times> Updater) list" where
  "threeCalls =
     [(10, Value (VObject (counter 1))), (11, Callable increment), (12, Callable increment)]"

text \<open>The chain \<open>[A, swallow, B]\<close> and its parts.\<close>

definition haltedChain :: "CallLog Middleware list" where
  "haltedChain = [tracer ''A''] @ swallow # [tracer ''B'']"

text \<open>
  \<open>(s, a) => { if (a.type === 'INC') store.setState({ count: 1 }) }\<close> and
  \<open>(s, a) => { if (a.type === 'PING') store.dispatch({ type: 'PONG' }) }\<close>. The
  notification inside the call they make reaches them with another action type, on
  which they make no call (lemmas \<open>setsCount_closure\<close>, \<open>answers_closure\<close>).
\<close>

definition setsCount :: "'x StoreCalls" where
  "setsCount i s a w =
     (if map_option type a = Some ''INC''
      then setState_calling quiet (Value (VObject (counter 1))) w
      else Inr w)"

definition answers :: "'x StoreCalls" where
  "answers i s a w =
     (if map_option type a = Some ''PING''
      then dispatch_calling quiet (act ''PONG'') w
      else Inr w)"


definition fullRecorder :: "unit DevTools" where
  "fullRecorder =
     enabledRecorder \<lparr> stateHistory := [counter 1, counter 2, counter 3],
                       actionHistory := [act ''A1'', act ''A2'', act ''A3''] \<rparr>"

section \<open>The History Recorder: bound, eviction order, lookup, disabling\<close>

lemma shift_drop: "shift xs = drop 1 xs"
  by (cases xs) (simp_all add: shift_def)

lemma evict_nonneg:
  "0 \<le> n \<Longrightarrow> evict n sh ah = Some (newest (nat n) sh, drop (length sh - nat n) ah)"
proof (induction sh arbitrary: ah)
  case Nil
  then show ?case by (subst evict.simps) (simp add: newest_def)
next
  case (Cons s sh)
  show ?case
  proof (cases "int (length (s # sh)) > n")
    case True
    then have "evict n (s # sh) ah = evict n sh (shift ah)"
      by (subst evict.simps) (simp add: shift_def)
    also have "\<dots> = Some (newest (nat n) sh, drop (length sh - nat n) (shift ah))"
      using Cons by simp
    finally show ?thesis using True Cons.prems
      by (simp add: newest_def shift_drop Suc_diff_le nat_le_iff)
  next
    case False
    then show ?thesis by (subst evict.simps) (simp add: newest_def)
  qed
qed

lemma evict_Some_bound:
  assumes "evict n sh ah = Some y" shows "int (length (fst y)) \<le> n"
  by (rule evict.raw_induct [OF _ assms]) (auto split: if_splits)

text \<open>Below a negative bound the loop of \<open>setMaxHistorySize\<close> does not return.\<close>

lemma evict_negative: "n < 0 \<Longrightarrow> evict n sh ah = None"
  using evict_Some_bound [of n sh ah] by (cases "evict n sh ah") auto

lemma setMaxHistorySize_nonneg:
  assumes "0 \<le> n" and "length (stateHistory d) = length (actionHistory d)"
  shows "setMaxHistorySize n d =
           Some (d \<lparr> maxHistorySize := n,
                     stateHistory := newest (nat n) (stateHistory d),
                     actionHistory := newest (nat n) (actionHistory d) \<rparr>)"
  using assms by (simp add: setMaxHistorySize_def evict_nonneg newest_def)

lemma push_shift_newest:
  assumes "int (length xs) \<le> m"
  shows "(if int (length (push xs x)) > m then shift (push xs x) else push xs x) =
           newest (nat m) (xs @ [x])"
proof (cases "int (length (push xs x)) > m")
  case True
  then have "nat m = length xs" using assms by (simp add: push_def)
  then show ?thesis using True by (simp add: push_def shift_drop newest_def)
next
  case False
  then have "length xs + 1 \<le> nat m" by (simp add: push_def)
  then show ?thesis using False by (simp add: push_def newest_def)
qed

lemma record_dt_enabled:
  assumes "enabled d"
  shows "fst (record_dt a s (d, x)) =
           (if int (length (push (stateHistory d) s)) > maxHistorySize d
            then d \<lparr> stateHistory := shift (push (stateHistory d) s),
                      actionHistory := shift (push (actionHistory d) a) \<rparr>
            else d \<lparr> stateHistory := push (stateHistory d) s,
                      actionHistory := push (actionHistory d) a \<rparr>)"
  using assms by (simp add: record_dt_def Let_def)

lemma record_dt_histories:
  assumes "enabled d" and "historyInvariant d"
  shows "stateHistory (fst (record_dt a s (d, x))) =
           newest (nat (maxHistorySize d)) (stateHistory d @ [s])"
    and "actionHistory (fst (record_dt a s (d, x))) =
           newest (nat (maxHistorySize d)) (actionHistory d @ [a])"
proof -
  have len: "length (stateHistory d) = length (actionHistory d)"
    and bound: "int (length (stateHistory d)) \<le> maxHistorySize d"
    using assms(2) by (simp_all add: historyInvariant_def)
  have same: "length (push (stateHistory d) s) = length (push (actionHistory d) a)"
    using len by (simp add: push_def)
  show "stateHistory (fst (record_dt a s (d, x))) =
           newest (nat (maxHistorySize d)) (stateHistory d @ [s])"
    using push_shift_newest [OF bound, of s]
    by (simp add: record_dt_enabled [OF assms(1)] split: if_splits)
  have "int (length (actionHistory d)) \<le> maxHistorySize d" using len bound by simp
  from push_shift_newest [OF this, of a]
  show "actionHistory (fst (record_dt a s (d, x))) =
           newest (nat (maxHistorySize d)) (actionHistory d @ [a])"
    using same by (simp add: record_dt_enabled [OF assms(1)] split: if_splits)
qed

lemma record_dt_invariant:
  assumes "historyInvariant d"
  shows "historyInvariant (fst (record_dt a s (d, x)))"
  using assms
  by (auto simp: record_dt_def historyInvariant_def Let_def push_def shift_drop)

lemma applyOp_invariant:
  assumes "historyInvariant (fst dx)" and "nonNegativeBound op"
  shows "\<exists>dx'. applyOp op dx = Some dx' \<and> historyInvariant (fst dx')"
proof (cases op)
  case (Record a s)
  then show ?thesis using assms record_dt_invariant [of "fst dx" a s "snd dx"] by simp
next
  case ClearHistory
  then show ?thesis using assms by (simp add: clearHistory_def historyInvariant_def)
next
  case (SetMaxHistorySize n)
  then show ?thesis using assms
    by (simp add: setMaxHistorySize_nonneg historyInvariant_def newest_def)
next
  case (SetEnabled b)
  then show ?thesis using assms by (simp add: setEnabled_def historyInvariant_def)
next
  case (Subscribe l)
  then show ?thesis using assms by (simp add: subscribe_dt_def historyInvariant_def)
qed

lemma runOps_invariant:
  assumes "historyInvariant (fst dx)" and "\<forall>op \<in> set ops. nonNegativeBound op"
  shows "\<exists>dx'. runOps ops dx = Some dx' \<and> historyInvariant (fst dx')"
  using assms
proof (induction ops arbitrary: dx)
  case Nil
  then show ?case by simp
next
  case (Cons op ops)
  then obtain dx1 where 1: "applyOp op dx = Some dx1" "historyInvariant (fst dx1)"
    using applyOp_invariant [of dx op] by auto
  with Cons show ?case by simp
qed

lemma newDevTools_invariant: "historyInvariant (newDevTools development options)"
  by (simp add: newDevTools_def historyInvariant_def)

text \<open>
  Claim C2. After any sequence of recorder operations whose \<open>setMaxHistorySize\<close> bounds
  are non-negative, run on a freshly constructed recorder, every operation has returned,
  the state history and the action history have the same length, and that length is at most
  \<open>maxHistorySize\<close>. From there, an enabled \<open>record\<close> leaves in each history the
  newest \<open>maxHistorySize\<close> entries of the old history followed by the new entry, and
  \<open>setMaxHistorySize n\<close> leaves the newest \<open>n\<close> of each: eviction takes the oldest
  entries of both histories, the same number from each.
\<close>

theorem history_bounded_fifo:
  assumes "\<forall>op \<in> set ops. nonNegativeBound op"
  shows "\<exists>d x'. runOps ops (newDevTools development options, x) = Some (d, x') \<and>
           length (stateHistory d) = length (actionHistory d) \<and>
           int (length (stateHistory d)) \<le> maxHistorySize d \<and>
           (\<forall>a s. enabled d \<longrightarrow>
              stateHistory (fst (record_dt a s (d, x'))) =
                newest (nat (maxHistorySize d)) (stateHistory d @ [s]) \<and>
              actionHistory (fst (record_dt a s (d, x'))) =
                newest (nat (maxHistorySize d)) (actionHistory d @ [a])) \<and>
           (\<forall>n \<ge> 0. \<exists>d'. setMaxHistorySize n d = Some d' \<and>
              stateHistory d' = newest (nat n) (stateHistory d) \<and>
              actionHistory d' = newest (nat n) (actionHistory d))"
proof -
  have "historyInvariant (fst (newDevTools development options, x))"
    by (simp add: newDevTools_invariant)
  from runOps_invariant [OF this assms]
  obtain dx' where run: "runOps ops (newDevTools development options, x) = Some dx'"
    and inv: "historyInvariant (fst dx')"
    by blast
  obtain d x' where dx': "dx' = (d, x')" by (cases dx')
  have len: "length (stateHistory d) = length (actionHistory d)"
    and bound: "int (length (stateHistory d)) \<le> maxHistorySize d"
    using inv dx' by (simp_all add: historyInvariant_def)
  have rec: "\<forall>a s. enabled d \<longrightarrow>
              stateHistory (fst (record_dt a s (d, x'))) =
                newest (nat (maxHistorySize d)) (stateHistory d @ [s]) \<and>
              actionHistory (fst (record_dt a s (d, x'))) =
                newest (nat (maxHistorySize d)) (actionHistory d @ [a])"
    using inv dx' record_dt_histories(1,2) [of d] by simp
  have smax: "\<forall>n \<ge> 0. \<exists>d'. setMaxHistorySize n d = Some d' \<and>
              stateHistory d' = newest (nat n) (stateHistory d) \<and>
              actionHistory d' = newest (nat n) (actionHistory d)"
    using len by (simp add: setMaxHistorySize_nonneg)
  show ?thesis using run dx' len bound rec smax by blast
qed


lemma threeRecords_run:
  "map_option (\<lambda>dx. (stateHistory (fst dx), actionHistory (fst dx)))
     (runOps threeRecords (enabledRecorder, ())) =
   Some ([counter 2, counter 3], [act ''A2'', act ''A3''])"
  by (simp add: threeRecords_def enabledRecorder_def newDevTools_def setMaxHistorySize_nonneg
      newest_def record_dt_def Let_def push_def shift_def notifyListeners_def forEach_def)

theorem history_bounded_fifo_witness:
  "list_all nonNegativeBound threeRecords \<and>
   (\<exists>d x'. runOps threeRecords (enabledRecorder, ()) = Some (d, x') \<and>
      length (stateHistory d) = length (actionHistory d) \<and>
      int (length (stateHistory d)) \<le> maxHistorySize d)"
proof -
  have h: "\<forall>op \<in> set threeRecords. nonNegativeBound op"
    by (simp add: threeRecords_def)
  note w = history_bounded_fifo [OF h, of False "\<lparr> optName = None, optEnabled = Some True \<rparr>" "()"]
  have "list_all nonNegativeBound threeRecords"
    by (simp add: threeRecords_def)
  then show ?thesis using w unfolding enabledRecorder_def by blast
qed

text \<open>
  Claim C8. For an index \<open>i\<close> with \<open>0 \<le> i < length\<close>, \<open>getStateAt\<close> and
  \<open>getActionAt\<close> return the entry at position \<open>length - 1 - i\<close> of their history, so
  index 0 is the entry recorded last; for \<open>i < 0\<close> or \<open>i \<ge> length\<close> they return
  \<open>null\<close> and do not raise.
\<close>

theorem history_lookup_by_recency:
  "(0 \<le> i \<and> i < int (length (stateHistory d)) \<longrightarrow>
      getStateAt i d = Some (stateHistory d ! (length (stateHistory d) - 1 - nat i))) \<and>
   (0 \<le> i \<and> i < int (length (actionHistory d)) \<longrightarrow>
      getActionAt i d = Some (actionHistory d ! (length (actionHistory d) - 1 - nat i))) \<and>
   (i < 0 \<or> int (length (stateHistory d)) \<le> i \<longrightarrow> getStateAt i d = None) \<and>
   (i < 0 \<or> int (length (actionHistory d)) \<le> i \<longrightarrow> getActionAt i d = None) \<and>
   (stateHistory d \<noteq> [] \<longrightarrow> getStateAt 0 d = Some (last (stateHistory d))) \<and>
   (actionHistory d \<noteq> [] \<longrightarrow> getActionAt 0 d = Some (last (actionHistory d)))"
proof -
  have idx: "nat (int n - 1 - i) = n - 1 - nat i" if "0 \<le> i" for n :: nat
    using that by arith
  have idx0: "nat (int n - 1) = n - Suc 0" for n :: nat
    by arith
  show ?thesis
    by (auto simp: getStateAt_def getActionAt_def idx idx0 last_conv_nth)
qed

theorem history_lookup_by_recency_witness:
  "getStateAt 0 fullRecorder = Some (counter 3) \<and>
   getStateAt 2 fullRecorder = Some (counter 1) \<and>
   getActionAt 1 fullRecorder = Some (act ''A2'') \<and>
   getStateAt 3 fullRecorder = None \<and>
   getActionAt (- 1) fullRecorder = None"
  using history_lookup_by_recency [of 0 fullRecorder]
    history_lookup_by_recency [of 2 fullRecorder]
    history_lookup_by_recency [of 1 fullRecorder]
    history_lookup_by_recency [of 3 fullRecorder]
    history_lookup_by_recency [of "- 1" fullRecorder]
  by (simp add: fullRecorder_def)

text \<open>
  Claim C9. In a disabled recorder \<open>record\<close> changes neither history and calls no
  listener, and \<open>subscribe\<close> registers nothing and returns an unsubscribe that does
  nothing, so that whatever runs afterwards runs as if the subscription had not been made.
  Disabling clears nothing: the getters report after \<open>setEnabled(false)\<close> what they
  reported before.
\<close>

theorem disabled_recorder_noop:
  "(\<not> enabled d \<longrightarrow>
      record_dt a s (d, x) = (d, x) \<and>
      subscribe_dt l d = (d, \<lambda>d'. d') \<and>
      (\<forall>ops. runOps (Subscribe l # ops) (d, x) = runOps ops (d, x))) \<and>
   \<not> enabled (setEnabled False d) \<and>
   getStateHistory (setEnabled False d) = getStateHistory d \<and>
   getActionHistory (setEnabled False d) = getActionHistory d \<and>
   getStateAt i (setEnabled False d) = getStateAt i d \<and>
   getActionAt i (setEnabled False d) = getActionAt i d"
  by (simp add: record_dt_def subscribe_dt_def setEnabled_def getStateHistory_def
      getActionHistory_def getStateAt_def getActionAt_def)

theorem disabled_recorder_noop_witness:
  "\<not> enabled disabledRecorder \<and>
   record_dt (act ''A1'') (counter 1) (disabledRecorder, ()) = (disabledRecorder, ()) \<and>
   length (getStateHistory (fst (record_dt (act ''A1'') (counter 1) (disabledRecorder, ())))) = 0"
proof -
  have h: "\<not> enabled disabledRecorder"
    by (simp add: disabledRecorder_def newDevTools_def)
  have e: "getStateHistory disabledRecorder = []"
    by (simp add: disabledRecorder_def newDevTools_def getStateHistory_def)
  from disabled_recorder_noop [of disabledRecorder "act ''A1''" "counter 1" "()"]
  show ?thesis using h e by simp
qed

text \<open>
  Scenario 4 of the specification: bound 5, ten records; five states are kept and index 0
  is the state of the tenth record.
\<close>

lemma scenario4:
  "map_option (\<lambda>dx. (length (getStateHistory (fst dx)), getStateAt 0 (fst dx)))
     (runOps (SetMaxHistorySize 5 # map (\<lambda>i. Record (act ''A'') (counter i)) [1, 2, 3, 4, 5, 6, 7, 8, 9, 10])
        (enabledRecorder, ())) =
   Some (5, Some (counter 10))"
  by (simp add: enabledRecorder_def newDevTools_def setMaxHistorySize_nonneg
      newest_def record_dt_def Let_def push_def shift_def notifyListeners_def forEach_def
      getStateHistory_def getStateAt_def)

section \<open>The Store: setState, dispatch\<close>

lemma map_of_assign: "map_of (assign t ps) = map_of t ++ map_of (rev ps)"
proof (induction ps arbitrary: t)
  case Nil
  then show ?case by (simp add: assign_def)
next
  case (Cons p ps)
  have "assign t (p # ps) = assign (AList.update (fst p) (snd p) t) ps"
    by (simp add: assign_def)
  then show ?case using Cons [of "AList.update (fst p) (snd p) t"]
    by (simp add: update_conv' map_add_upd_left fun_eq_iff map_add_def split: option.splits)
qed

lemma distinct_assign: "distinct (map fst t) \<Longrightarrow> distinct (map fst (assign t ps))"
proof (induction ps arbitrary: t)
  case Nil
  then show ?case by (simp add: assign_def)
next
  case (Cons p ps)
  have "assign t (p # ps) = assign (AList.update (fst p) (snd p) t) ps"
    by (simp add: assign_def)
  then show ?case using Cons by (simp add: distinct_update)
qed

lemma mappingOf_distinct: "distinct (map fst ps) \<Longrightarrow> mappingOf ps = map_of ps"
  unfolding mappingOf_def
  by (rule ext) (metis distinct_rev map_of_eq_Some_iff map_of_eq_None_iff rev_map set_rev not_Some_eq)

lemma mappingOf_spread:
  "mappingOf (spread a b) = shallowMerge (mappingOf (ownProps a)) (mappingOf (ownProps b))"
proof -
  have "distinct (map fst (spread a b))"
    by (simp add: spread_def distinct_assign)
  then have "mappingOf (spread a b) = map_of (spread a b)"
    by (rule mappingOf_distinct)
  also have "\<dots> = mappingOf (ownProps a) ++ mappingOf (ownProps b)"
    by (simp add: spread_def map_of_assign mappingOf_def)
  also have "\<dots> = shallowMerge (mappingOf (ownProps a)) (mappingOf (ownProps b))"
    by (simp add: shallowMerge_def map_add_def fun_eq_iff split: option.splits)
  finally show ?thesis .
qed

lemma recordIn_state: "state (recordIn a w) = state w"
  by (simp add: recordIn_def split: prod.splits)


lemma notify_state: "state (notify a w) = state w"
  by (simp add: notify_def)

lemma store_setState_state:
  "\<exists>w'. store_setState u w = Inr w' \<and>
        state w' = spread (VObject (state w)) (resolve u (state w))"
  by (simp add: store_setState_def Let_def notify_state recordIn_state)


text \<open>
  Claim C3. Every finite sequence of \<open>setState\<close> calls returns, and the state
  \<open>getState\<close> then reports is, read as a mapping, the left-to-right fold of shallow
  merge over the partial updates of the calls, starting from the state before the first
  call. Shallow merge takes the update's value for every key the update has, whatever the
  old value was, so a nested object is replaced and not merged.
\<close>

theorem setState_shallow_merge_fold:
  "\<exists>w'. setStates calls w = Inr w' \<and>
     mappingOf (store_getState w') =
       foldl shallowMerge (mappingOf (store_getState w))
         (map (\<lambda>p. mappingOf (ownProps p)) (partials calls w))"
proof (induction calls arbitrary: w)
  case Nil
  then show ?case by simp
next
  case (Cons c calls)
  obtain w1 where 1: "store_setState (snd c) (w \<lparr> now := fst c \<rparr>) = Inr w1"
    and 2: "state w1 = spread (VObject (state w)) (resolve (snd c) (state w))"
    using store_setState_state [of "snd c" "w \<lparr> now := fst c \<rparr>"] by auto
  obtain w' where 3: "setStates calls w1 = Inr w'"
    and 4: "mappingOf (store_getState w') =
       foldl shallowMerge (mappingOf (store_getState w1))
         (map (\<lambda>p. mappingOf (ownProps p)) (partials calls w1))"
    using Cons [of w1] by auto
  have "mappingOf (store_getState w1) =
          shallowMerge (mappingOf (store_getState w))
            (mappingOf (ownProps (resolve (snd c) (state w))))"
    by (simp add: store_getState_def 2 mappingOf_spread)
  with 1 3 4 show ?case by simp
qed

lemma watchedWorld_eq:
  "watchedWorld =
     \<lparr> state = counter 0, listeners = [(1, logListener ''L'')],
       devTools = \<lparr> enabled = True, name = ''Stately Store'', stateHistory = [],
                    actionHistory = [], maxHistorySize = 100, listeners = [] \<rparr>,
       now = 9, env = [] \<rparr>"
  by (simp add: watchedWorld_def createStore_def plainOptions_def baseStore_def
      store_subscribe_def newDevTools_def setAdd_def Let_def)

lemma threeCalls_partials:
  "partials threeCalls watchedWorld =
     [VObject (counter 1), VObject (counter 2), VObject (counter 3)]"
  by (simp add: threeCalls_def watchedWorld_eq store_setState_def resolve_def Let_def
      notify_def recordIn_def record_dt_def push_def shift_def notifyListeners_def
      forEach_def spread_def assign_def counter_def increment_def mappingOf_def
      logListener_def)

text \<open>Where every updater is a value, the partial updates are the values passed.\<close>

lemma partials_values: "partials (map (\<lambda>tv. (fst tv, Value (snd tv))) tvs) w = map snd tvs"
proof (induction tvs arbitrary: w)
  case Nil
  then show ?case by simp
next
  case (Cons tv tvs)
  obtain w1 where "store_setState (Value (snd tv)) (w \<lparr> now := fst tv \<rparr>) = Inr w1"
    using store_setState_state [of "Value (snd tv)" "w \<lparr> now := fst tv \<rparr>"] by blast
  then show ?case using Cons by (simp add: resolve_def)
qed

theorem setState_shallow_merge_fold_witness:
  "mappingOf (store_getState (projr (setStates threeCalls watchedWorld))) ''count'' =
     Some (VNumber 3)"
proof -
  obtain w' where 1: "setStates threeCalls watchedWorld = Inr w'"
    and 2: "mappingOf (store_getState w') =
       foldl shallowMerge (mappingOf (store_getState watchedWorld))
         (map (\<lambda>p. mappingOf (ownProps p)) (partials threeCalls watchedWorld))"
    using setState_shallow_merge_fold [of threeCalls watchedWorld] by blast
  have "mappingOf (store_getState w') ''count'' = Some (VNumber 3)"
    unfolding 2 threeCalls_partials
    by (simp add: shallowMerge_def mappingOf_def counter_def)
  then show ?thesis by (simp add: 1)
qed

text \<open>
  A nested object is replaced wholesale: after \<open>setState({ user: { name: 'b' } })\<close> on
  \<open>{ count: 0, user: { name: 'a', age: 1 } }\<close> the user has no \<open>age\<close>.
\<close>

lemma setState_replaces_nested_object:
  "mappingOf (store_getState (projr
      (store_setState (Value (VObject [(''user'', VObject [(''name'', VString ''b'')])]))
         (watchedWorld \<lparr> state := nested \<rparr>)))) =
   [''count'' \<mapsto> VNumber 0, ''user'' \<mapsto> VObject [(''name'', VString ''b'')]]"
  by (simp add: watchedWorld_eq store_setState_def resolve_def Let_def
      notify_def recordIn_def record_dt_def push_def shift_def notifyListeners_def
      forEach_def spread_def assign_def nested_def mappingOf_def store_getState_def
      logListener_def fun_eq_iff)


subsection \<open>Listeners that call the store\<close>

text \<open>With listeners that make no calls, the store is the store of the section above.\<close>

lemma notifyEach_quiet:
  "notifyEach quiet ls a w =
     Inr (w \<lparr> env := fold (\<lambda>l. snd l (state w) (Some a)) ls (env w) \<rparr>)"
proof (induction ls arbitrary: w)
  case Nil
  then show ?case by simp
next
  case (Cons l ls)
  show ?case by (simp add: invoke_def quiet_def Cons [unfolded quiet_def])
qed

lemma notify_calling_quiet: "notify_calling quiet a w = Inr (notify a w)"
  by (simp add: notify_calling_def notifyEach_quiet notify_def forEach_def)

lemma dispatch_calling_quiet: "dispatch_calling quiet = store_dispatch"
  by (rule ext, rule ext)
     (simp add: dispatch_calling_def store_dispatch_def Let_def notify_calling_quiet)

lemma setState_calling_quiet: "setState_calling quiet = store_setState"
  by (rule ext, rule ext)
     (simp add: setState_calling_def store_setState_def Let_def notify_calling_quiet)

lemma createStore_calling_quiet: "createStore_calling quiet = createStore"
  by (rule ext, rule ext, rule ext, rule ext)
     (simp add: createStore_calling_def createStore_def baseStore_calling_def baseStore_def
        dispatch_calling_quiet setState_calling_quiet)

lemma notifyEach_cong:
  assumes "\<forall>l \<in> set ls. \<forall>s v. calls (fst l) s (Some a) v = calls' (fst l) s (Some a) v"
  shows "notifyEach calls ls a w = notifyEach calls' ls a w"
  using assms
proof (induction ls arbitrary: w)
  case Nil
  then show ?case by simp
next
  case (Cons l ls)
  then show ?case by (simp add: invoke_def split: sum.splits)
qed



text \<open>
  The two example listeners are the closures they are defined to stand for: the call each
  makes notifies the listeners of the same store, themselves included.
\<close>

lemma setsCount_closure:
  "setsCount i s a w =
     (if map_option type a = Some ''INC''
      then setState_calling setsCount (Value (VObject (counter 1))) w
      else Inr w)"
proof -
  have "setState_calling setsCount u v = setState_calling quiet u v" for u and v :: "'a World"
    unfolding setState_calling_def notify_calling_def Let_def
    by (rule notifyEach_cong) (simp add: setsCount_def quiet_def)
  then show ?thesis by (auto simp: setsCount_def)
qed

lemma answers_closure:
  "answers i s a w =
     (if map_option type a = Some ''PING''
      then dispatch_calling answers (act ''PONG'') w
      else Inr w)"
proof -
  have "dispatch_calling answers (act ''PONG'') v = dispatch_calling quiet (act ''PONG'') v"
    for v :: "'a World"
    unfolding dispatch_calling_def notify_calling_def Let_def
    by (rule notifyEach_cong) (simp add: answers_def quiet_def act_def)
  then show ?thesis by (auto simp: answers_def)
qed









lemma setState_watched:
  "store_setState (Value (VObject (counter 1)))
     (watchedWorld \<lparr> devTools := d, env := x \<rparr>) =
   Inr (notify \<lparr> type = ''SET_STATE'', payload = Some (VObject (counter 1)),
                  timestamp = Some 9 \<rparr>
          (recordIn \<lparr> type = ''SET_STATE'', payload = Some (VObject (counter 1)),
                      timestamp = Some 9 \<rparr>
             (watchedWorld \<lparr> devTools := d, env := x, state := counter 1 \<rparr>)))"
  by (simp add: store_setState_def Let_def resolve_def watchedWorld_eq spread_def assign_def
      counter_def)








lemma newest_last:
  assumes "0 < n"
  shows "newest n (xs @ [x]) \<noteq> [] \<and> last (newest n (xs @ [x])) = x"
  using assms by (simp add: newest_def)

lemma record_dt_last:
  assumes "enabled d" and "historyInvariant d" and "0 < maxHistorySize d"
  shows "actionHistory (fst (record_dt a s (d, x))) \<noteq> [] \<and>
         last (actionHistory (fst (record_dt a s (d, x)))) = a"
  using newest_last [of "nat (maxHistorySize d)" "actionHistory d" a] assms(3)
  by (simp add: record_dt_histories(2) [OF assms(1,2)])

lemma record_dt_env:
  "snd (record_dt a s (d, x)) =
     (if enabled d
      then forEach (DevTools.listeners d)
             (\<lambda>l. l \<lparr> changeType = ''STATE_CHANGED'', changeState = s,
                        changeAction = Some a \<rparr>) x
      else x)"
  by (simp add: record_dt_def Let_def notifyListeners_def)

lemma store_dispatch_effect:
  "\<exists>w'. store_dispatch a w = Inr w' \<and>
     devTools w' = fst (record_dt (a \<lparr> timestamp := Some (now w) \<rparr>) (state w)
                          (devTools w, env w)) \<and>
     env w' = forEach (World.listeners w)
                (\<lambda>l. l (state w) (Some (a \<lparr> timestamp := Some (now w) \<rparr>)))
                (snd (record_dt (a \<lparr> timestamp := Some (now w) \<rparr>) (state w)
                          (devTools w, env w)))"
  by (simp add: store_dispatch_def Let_def notify_def recordIn_def split: prod.splits)

text \<open>
  Claim C5, amended. \<open>dispatch\<close> stamps every action with the current time, whether or
  not the action already has a timestamp: the action recorded last in an enabled recorder
  (with a positive bound) and the action every store listener is called with are the
  dispatched action with its timestamp set to the clock.
\<close>

theorem dispatch_stamps_always:
  "\<exists>w'. store_dispatch a w = Inr w' \<and>
     (enabled (devTools w) \<and> historyInvariant (devTools w) \<and> 0 < maxHistorySize (devTools w)
        \<longrightarrow> actionHistory (devTools w') \<noteq> [] \<and>
            last (actionHistory (devTools w')) = a \<lparr> timestamp := Some (now w) \<rparr>) \<and>
     env w' =
       forEach (World.listeners w)
         (\<lambda>l. l (state w) (Some (a \<lparr> timestamp := Some (now w) \<rparr>)))
         (if enabled (devTools w)
          then forEach (DevTools.listeners (devTools w))
                 (\<lambda>l. l \<lparr> changeType = ''STATE_CHANGED'', changeState = state w,
                            changeAction = Some (a \<lparr> timestamp := Some (now w) \<rparr>) \<rparr>)
                 (env w)
          else env w)"
proof -
  obtain w' where 1: "store_dispatch a w = Inr w'"
    and 2: "devTools w' = fst (record_dt (a \<lparr> timestamp := Some (now w) \<rparr>) (state w)
                          (devTools w, env w))"
    and 3: "env w' = forEach (World.listeners w)
                (\<lambda>l. l (state w) (Some (a \<lparr> timestamp := Some (now w) \<rparr>)))
                (snd (record_dt (a \<lparr> timestamp := Some (now w) \<rparr>) (state w)
                          (devTools w, env w)))"
    using store_dispatch_effect [of a w] by blast
  show ?thesis
    using record_dt_last [of "devTools w" "a \<lparr> timestamp := Some (now w) \<rparr>" "state w" "env w"]
    by (simp add: 1 2 3 record_dt_env)
qed

lemma watchedWorld_invariant:
  "enabled (devTools watchedWorld) \<and> historyInvariant (devTools watchedWorld) \<and>
   0 < maxHistorySize (devTools watchedWorld)"
  by (simp add: watchedWorld_eq historyInvariant_def)

lemma dispatch_watchedWorld:
  "store_dispatch a watchedWorld =
     Inr (watchedWorld
            \<lparr> devTools := devTools watchedWorld
                 \<lparr> stateHistory := [counter 0],
                   actionHistory := [a \<lparr> timestamp := Some 9 \<rparr>] \<rparr>,
              env := [(''L'', Some (a \<lparr> timestamp := Some 9 \<rparr>))] \<rparr>)"
  by (simp add: watchedWorld_eq store_dispatch_def Let_def notify_def recordIn_def
      record_dt_def push_def shift_def notifyListeners_def forEach_def logListener_def)

text \<open>
  Claim C5 as stated fails: an action dispatched with timestamp 5 at clock 9 is recorded
  and passed to the listener with timestamp 9.
\<close>

theorem dispatch_keeps_timestamp_counterexample:
  "timestamp stampedAction = Some 5 \<and>
   map timestamp (actionHistory (devTools (projr (store_dispatch stampedAction watchedWorld)))) =
     [Some 9] \<and>
   map (\<lambda>c. map_option timestamp (snd c))
     (env (projr (store_dispatch stampedAction watchedWorld))) = [Some (Some 9)]"
  by (simp add: dispatch_watchedWorld) (simp add: stampedAction_def)

theorem dispatch_stamps_always_witness:
  "last (actionHistory (devTools (projr (store_dispatch stampedAction watchedWorld)))) =
     stampedAction \<lparr> timestamp := Some 9 \<rparr> \<and>
   env (projr (store_dispatch stampedAction watchedWorld)) =
     [(''L'', Some (stampedAction \<lparr> timestamp := Some 9 \<rparr>))]"
proof -
  obtain w' where 1: "store_dispatch stampedAction watchedWorld = Inr w'"
    and 2: "last (actionHistory (devTools w')) =
              stampedAction \<lparr> timestamp := Some (now watchedWorld) \<rparr>"
    and 3: "env w' =
       forEach (World.listeners watchedWorld)
         (\<lambda>l. l (state watchedWorld)
                 (Some (stampedAction \<lparr> timestamp := Some (now watchedWorld) \<rparr>)))
         (if enabled (devTools watchedWorld)
          then forEach (DevTools.listeners (devTools watchedWorld))
                 (\<lambda>l. l \<lparr> changeType = ''STATE_CHANGED'', changeState = state watchedWorld,
                            changeAction =
                              Some (stampedAction \<lparr> timestamp := Some (now watchedWorld) \<rparr>) \<rparr>)
                 (env watchedWorld)
          else env watchedWorld)"
    using dispatch_stamps_always [of stampedAction watchedWorld] watchedWorld_invariant
    by blast
  have "now watchedWorld = 9" by (simp add: watchedWorld_eq)
  then show ?thesis using 1 2 3
    by (simp add: watchedWorld_eq forEach_def logListener_def)
qed







section \<open>The Middleware Pipeline: call order, halting\<close>

lemma composeChain_Nil: "composeChain [] store d = d"
  by (simp add: composeChain_def reduceRight_def)

lemma composeChain_Cons: "composeChain (m # ms) store d = m store (composeChain ms store d)"
  by (simp add: composeChain_def reduceRight_def Let_def)

lemma composeChain_append:
  "composeChain (ms @ ns) store d = composeChain ms store (composeChain ns store d)"
  by (induction ms) (simp_all add: composeChain_Nil composeChain_Cons)

lemma composeChain_foldr:
  "composeChain ms store d = foldr (\<lambda>m next. m store next) ms d"
  by (induction ms) (simp_all add: composeChain_Nil composeChain_Cons)

lemma composeChain_tracers:
  "composeChain (map tracer tags) store d a w =
     d a (w \<lparr> env := env w @ map (\<lambda>tag. (tag, Some a)) tags \<rparr>)"
proof (induction tags arbitrary: w)
  case Nil
  then show ?case by (simp add: composeChain_Nil)
next
  case (Cons tag tags)
  have "composeChain (map tracer (tag # tags)) store d a w =
          composeChain (map tracer tags) store d a (w \<lparr> env := env w @ [(tag, Some a)] \<rparr>)"
    by (simp add: composeChain_Cons tracer_def)
  also have "\<dots> = d a (w \<lparr> env := env w @ map (\<lambda>tag. (tag, Some a)) (tag # tags) \<rparr>)"
    using Cons [of "w \<lparr> env := env w @ [(tag, Some a)] \<rparr>"] by simp
  finally show ?case .
qed

text \<open>
  Claim C1. The composed dispatch of \<open>applyMiddleware\<close> nests the handlers in
  registration order, the first outermost and the store's own dispatch innermost, although
  \<open>reduceRight\<close> visits the list from its end: for \<open>[A, B, C]\<close> it is
  \<open>A(store, B(store, C(store, rawDispatch)))\<close>. Handlers that log and forward are
  therefore entered in registration order, each with the dispatched action, before the
  store's own dispatch runs.
\<close>

theorem middleware_registration_order:
  "dispatch (applyMiddleware ms store) = foldr (\<lambda>m next. m store next) ms (dispatch store) \<and>
   dispatch (applyMiddleware [A, B, C] store) = A store (B store (C store (dispatch store))) \<and>
   dispatch (applyMiddleware (map tracer tags) tstore) a w =
     dispatch tstore a (w \<lparr> env := env w @ map (\<lambda>tag. (tag, Some a)) tags \<rparr>)"
  by (simp add: applyMiddleware_def composeChain_foldr [symmetric] composeChain_tracers
      composeChain_Cons composeChain_Nil)

text \<open>
  On the store of \<open>createStore\<close> with handlers \<open>[A, B, C]\<close> and one listener the call
  log reads A, B, C and then the listener, which the store's own dispatch calls.
\<close>

lemma traced_dispatch:
  "dispatch (fst (createStore False
       (plainOptions \<lparr> middleware := Some [tracer ''A'', tracer ''B'', tracer ''C''] \<rparr>) 9 []))
     (act ''X'') watchedWorld =
   Inr (watchedWorld
          \<lparr> devTools := devTools watchedWorld
               \<lparr> stateHistory := [counter 0],
                 actionHistory := [(act ''X'') \<lparr> timestamp := Some 9 \<rparr>] \<rparr>,
            env := [(''A'', Some (act ''X'')), (''B'', Some (act ''X'')),
                    (''C'', Some (act ''X'')),
                    (''L'', Some ((act ''X'') \<lparr> timestamp := Some 9 \<rparr>))] \<rparr>)"
  by (simp add: createStore_def plainOptions_def Let_def applyMiddleware_def
      composeChain_Cons composeChain_Nil tracer_def baseStore_def)
     (simp add: watchedWorld_eq store_dispatch_def Let_def notify_def recordIn_def
      record_dt_def push_def shift_def notifyListeners_def forEach_def logListener_def)

text \<open>
  Claim C7. A handler that never calls \<open>next\<close> behaves the same whatever \<open>next\<close> is.
  With such a handler in the chain, the composed dispatch is the chain of the handlers
  before it ending in the halting handler, whatever the later handlers and the store's own
  dispatch are: none of them runs, so nothing is recorded and no store listener is called
  except by what the halting handler and the handlers before it do themselves.
\<close>

theorem halting_handler_stops_chain:
  assumes "\<forall>next next'. h store next = h store next'"
  shows "dispatch (applyMiddleware (pre @ h # post) store) = composeChain pre store (h store other) \<and>
         dispatch (applyMiddleware (h # post) store) = h store other"
proof -
  have "h store (composeChain post store (dispatch store)) = h store other"
    using assms by blast
  then show ?thesis
    by (simp add: applyMiddleware_def composeChain_append composeChain_Cons composeChain_Nil)
qed

theorem halting_handler_stops_chain_witness:
  "dispatch (fst (createStore False (plainOptions \<lparr> middleware := Some haltedChain \<rparr>) 9 []))
     (act ''X'') watchedWorld =
   Inr (watchedWorld \<lparr> env := [(''A'', Some (act ''X''))] \<rparr>)"
proof -
  have h: "\<forall>next next'. (swallow :: CallLog Middleware) baseStore next = swallow baseStore next'"
    by (simp add: swallow_def fun_eq_iff)
  have c: "fst (createStore False (plainOptions \<lparr> middleware := Some haltedChain \<rparr>) 9 []) =
             applyMiddleware ([tracer ''A''] @ swallow # [tracer ''B'']) baseStore"
    by (simp add: createStore_def Let_def haltedChain_def)
  have "dispatch (applyMiddleware ([tracer ''A''] @ swallow # [tracer ''B'']) baseStore) =
          composeChain [tracer ''A''] baseStore (swallow baseStore (\<lambda>a w. Inr w))"
    using h halting_handler_stops_chain [where h = swallow and store = baseStore
        and pre = "[tracer ''A'']" and post = "[tracer ''B'']" and other = "\<lambda>a w. Inr w"]
    by blast
  then show ?thesis
    by (simp add: c composeChain_Cons composeChain_Nil tracer_def swallow_def watchedWorld_eq)
qed

end
